theory Spec2Isabelle
  imports Main
begin

section \<open>Strings\<close>

text \<open>
  A Python \<open>str\<close> is modelled by the bytes of its UTF-8 encoding: a \<open>string\<close> with one
  \<open>char\<close> for an ASCII character and two to four for any other (the en dash and the
  arrow in the literals of the source are written so). Equality, concatenation,
  \<open>startswith\<close>, \<open>endswith\<close>, \<open>in\<close>, \<open>replace\<close> and \<open>split\<close> with ASCII arguments, and
  cutting an ASCII suffix off, act on the encoding as they act on the text.

  The methods that consult the Unicode character database are treated as follows.
  \<^item> \<open>str.split()\<close> splits at the white-space characters of Unicode; \<open>WHITESPACE\<close> lists
    all of them, encoded.
  \<^item> \<open>str.strip()\<close> and \<open>str.lower()\<close> are arguments, \<open>str_strip\<close> and \<open>str_lower\<close>, of the
    functions of the translator that call them (\<open>lookup_with\<close>, \<open>analyze_word_with\<close>
    and so on): what is proved for all values of the arguments holds of the two methods,
    whatever they compute.
  \<^item> \<open>strip\<close> and \<open>lower\<close> below are the two methods on ASCII text: \<open>lower\<close> maps
    \<open>A\<close>..\<open>Z\<close> to \<open>a\<close>..\<open>z\<close>, and \<open>strip\<close> removes tab, line feed, vertical tab, form
    feed, carriage return, the separators 0x1C..0x1F and the space at both ends. With
    them the arguments are instantiated (\<open>lookup\<close>, \<open>analyze_word\<close>) to run the
    translator on ASCII text.
\<close>

definition isspace :: "char \<Rightarrow> bool" where
  "isspace c = (c \<in> set [CHR 0x09, CHR 0x0A, CHR 0x0B, CHR 0x0C, CHR 0x0D,
                           CHR 0x1C, CHR 0x1D, CHR 0x1E, CHR 0x1F, CHR 0x20])"

definition lower_char :: "char \<Rightarrow> char" where
  "lower_char c =
     (case map_of (zip ''ABCDEFGHIJKLMNOPQRSTUVWXYZ'' ''abcdefghijklmnopqrstuvwxyz'') c of
        Some d \<Rightarrow> d
      | None \<Rightarrow> c)"

definition lower :: "string \<Rightarrow> string" where
  "lower s = map lower_char s"

definition strip :: "string \<Rightarrow> string" where
  "strip s = rev (dropWhile isspace (rev (dropWhile isspace s)))"

text \<open>\<open>s.startswith(p)\<close> and \<open>s.endswith(p)\<close>.\<close>

fun startswith :: "string \<Rightarrow> string \<Rightarrow> bool" where
  "startswith s [] = True"
| "startswith [] (p # ps) = False"
| "startswith (c # cs) (p # ps) = (c = p \<and> startswith cs ps)"

definition endswith :: "string \<Rightarrow> string \<Rightarrow> bool" where
  "endswith s p = startswith (rev s) (rev p)"

text \<open>\<open>sub in s\<close>: \<open>sub\<close> occurs in \<open>s\<close> as a contiguous substring.\<close>

fun py_in :: "string \<Rightarrow> string \<Rightarrow> bool" where
  "py_in sub [] = (sub = [])"
| "py_in sub (c # cs) = (startswith (c # cs) sub \<or> py_in sub cs)"

text \<open>
  \<open>s[:-n]\<close> for \<open>n = len(t)\<close>: Python evaluates \<open>s[:-0]\<close> as \<open>s[:0]\<close>, the empty string;
  for \<open>n > 0\<close> the last \<open>n\<close> characters are dropped (all of them when \<open>n > len(s)\<close>).
\<close>

definition drop_last :: "nat \<Rightarrow> string \<Rightarrow> string" where
  "drop_last n s = (if n = 0 then [] else take (length s - n) s)"

text \<open>\<open>s.split(sep)\<close> for a one-character separator: the pieces between the separators,
  empty pieces kept.\<close>

fun split_on :: "char \<Rightarrow> string \<Rightarrow> string \<Rightarrow> string list" where
  "split_on sep cur [] = [cur]"
| "split_on sep cur (c # cs) =
     (if c = sep then cur # split_on sep [] cs else split_on sep (cur @ [c]) cs)"

text \<open>The white-space characters of Unicode (those for which \<open>str.isspace\<close> holds,
  at which \<open>str.split()\<close> splits): U+0009..U+000D, U+001C..U+001F, U+0020, U+0085,
  U+00A0, U+1680, U+2000..U+200A, U+2028, U+2029, U+202F, U+205F and U+3000, each as its
  UTF-8 encoding.\<close>

definition WHITESPACE :: "string list" where
  "WHITESPACE =
    [[CHR 0x09], [CHR 0x0A], [CHR 0x0B], [CHR 0x0C], [CHR 0x0D],
     [CHR 0x1C], [CHR 0x1D], [CHR 0x1E], [CHR 0x1F], [CHR 0x20],
     [CHR 0xC2, CHR 0x85], [CHR 0xC2, CHR 0xA0],
     [CHR 0xE1, CHR 0x9A, CHR 0x80],
     [CHR 0xE2, CHR 0x80, CHR 0x80], [CHR 0xE2, CHR 0x80, CHR 0x81],
     [CHR 0xE2, CHR 0x80, CHR 0x82], [CHR 0xE2, CHR 0x80, CHR 0x83],
     [CHR 0xE2, CHR 0x80, CHR 0x84], [CHR 0xE2, CHR 0x80, CHR 0x85],
     [CHR 0xE2, CHR 0x80, CHR 0x86], [CHR 0xE2, CHR 0x80, CHR 0x87],
     [CHR 0xE2, CHR 0x80, CHR 0x88], [CHR 0xE2, CHR 0x80, CHR 0x89],
     [CHR 0xE2, CHR 0x80, CHR 0x8A],
     [CHR 0xE2, CHR 0x80, CHR 0xA8], [CHR 0xE2, CHR 0x80, CHR 0xA9],
     [CHR 0xE2, CHR 0x80, CHR 0xAF], [CHR 0xE2, CHR 0x81, CHR 0x9F],
     [CHR 0xE3, CHR 0x80, CHR 0x80]]"

text \<open>The white-space character with which a text begins, if it begins with one. (No
  encoding in the list starts with a continuation byte, so none is found in the middle
  of another character.)\<close>

definition ws_at :: "string \<Rightarrow> string option" where
  "ws_at s = find (startswith s) WHITESPACE"

text \<open>\<open>s.split()\<close>: the maximal runs of characters that are not white space; no empty
  piece is produced.\<close>

function split_ws :: "string \<Rightarrow> string \<Rightarrow> string list" where
  "split_ws cur [] = (if cur = [] then [] else [cur])"
| "split_ws cur (c # cs) =
     (case ws_at (c # cs) of
        Some w \<Rightarrow> (if cur = [] then [] else [cur]) @ split_ws [] (drop (length w) (c # cs))
      | None \<Rightarrow> split_ws (cur @ [c]) cs)"
  by pat_completeness auto

termination split_ws
proof (relation "measure (\<lambda>(cur, s). length s)")
  show "wf (measure (\<lambda>(cur, s). length s))" by simp
next
  fix cur :: string and c :: char and cs w :: string
  assume "ws_at (c # cs) = Some w"
  then have "w \<in> set WHITESPACE"
    by (auto simp: ws_at_def find_Some_iff)
  moreover have "[] \<notin> set WHITESPACE"
    by (simp add: WHITESPACE_def)
  ultimately have "w \<noteq> []" by blast
  then show "(([], drop (length w) (c # cs)), (cur, c # cs)) \<in> measure (\<lambda>(cur, s). length s)"
    by simp
next
  fix cur :: string and c :: char and cs :: string
  show "((cur @ [c], cs), (cur, c # cs)) \<in> measure (\<lambda>(cur, s). length s)"
    by simp
qed

text \<open>\<open>s.replace(",", " ")\<close>.\<close>

definition replace_comma :: "string \<Rightarrow> string" where
  "replace_comma s = map (\<lambda>c. if c = CHR '','' then CHR '' '' else c) s"

text \<open>\<open>sep.join(xs)\<close>.\<close>

fun join :: "string \<Rightarrow> string list \<Rightarrow> string" where
  "join sep [] = []"
| "join sep [x] = x"
| "join sep (x # y # ys) = x @ sep @ join sep (y # ys)"

section \<open>The segmenter of \<open>lnu_bridge.py\<close>\<close>

text \<open>The \<open>Morpheme\<close> dataclass of \<open>lnu_bridge.py\<close> (fields \<open>form\<close>, \<open>gloss\<close>, \<open>type\<close>,
  \<open>notes\<close>); the last three carry a prefix because \<open>translator.py\<close> has a class of the same
  name with fields \<open>gloss\<close> and \<open>notes\<close>.\<close>

record BMorpheme =
  form :: string
  b_gloss :: string
  b_type :: string
  b_notes :: string

definition BM :: "string \<Rightarrow> string \<Rightarrow> string \<Rightarrow> string \<Rightarrow> BMorpheme" where
  "BM f g t n = \<lparr>form = f, b_gloss = g, b_type = t, b_notes = n\<rparr>"

definition MORPHEMES :: "BMorpheme list" where
  "MORPHEMES =
    [BM ''tekek'' ''cold (it is cold)'' ''root'' ''SFO; often pronounced with 'g' quality'',
     BM ''wikuom'' ''house, dwelling, storage place'' ''root'' '''',
     BM ''aqan'' ''motion of arm/elbow, waving'' ''suffix'' ''used in weenieraqn joke'',
     BM ''ketlami'' ''care, concern, love-like care'' ''root'' '''',
     BM ''welo't'' ''good, well, in good state'' ''root'' '''',
     BM ''epsi'' ''I am warm / passionate'' ''root'' ''Pacifique/Prosper'',
     BM ''ul'' ''to make, to cause'' ''suffix'' ''device/action builder'',
     BM ''qan'' (''device / instrument / 'thing that does it'' @ [CHR 0x27]) ''suffix'' '''',
     BM ''si'' ''I am (stative in some forms)'' ''suffix'' '''',
     BM ''tasi'' ''in state/condition of'' ''suffix'' '''']"

text \<open>\<open>MORPHEME_INDEX = {m.form: m for m in MORPHEMES}\<close>: a later morpheme of the same
  form replaces an earlier one. The table is an argument of the model, so that the
  theorems also cover a table that has been extended.\<close>

definition MORPHEME_INDEX :: "BMorpheme list \<Rightarrow> string \<rightharpoonup> BMorpheme" where
  "MORPHEME_INDEX tbl = fold (\<lambda>m idx. idx(form m \<mapsto> m)) tbl Map.empty"

text \<open>\<open>sorted([m for m in MORPHEMES if m.type == "suffix"], key=lambda m: len(m.form),
  reverse=True)\<close>: Python's sort is stable, also with \<open>reverse=True\<close>; this is the stable
  insertion sort of the library on the negated length.\<close>

definition suffixes :: "BMorpheme list \<Rightarrow> BMorpheme list" where
  "suffixes tbl =
     sort_key (\<lambda>m. - int (length (form m))) (filter (\<lambda>m. b_type m = ''suffix'') tbl)"

text \<open>The test of the inner \<open>for\<close> loop, which breaks at the first suffix that passes it.\<close>

definition peelable :: "string \<Rightarrow> BMorpheme \<Rightarrow> bool" where
  "peelable remaining suf = (endswith remaining (form suf) \<and> remaining \<noteq> form suf)"

text \<open>The \<open>while changed\<close> loop on the state \<open>(remaining, found)\<close>.\<close>

function peel :: "BMorpheme list \<Rightarrow> string \<Rightarrow> BMorpheme list \<Rightarrow> string \<times> BMorpheme list" where
  "peel sufs remaining found =
     (case find (peelable remaining) sufs of
        None \<Rightarrow> (remaining, found)
      | Some suf \<Rightarrow> peel sufs (drop_last (length (form suf)) remaining) (suf # found))"
  by pat_completeness auto

termination peel
proof (relation "measure (\<lambda>(sufs, remaining, found). length remaining)")
  show "wf (measure (\<lambda>(sufs, remaining, found). length remaining))" by simp
next
  fix sufs :: "BMorpheme list" and remaining :: string and found :: "BMorpheme list"
    and suf :: BMorpheme
  assume "find (peelable remaining) sufs = Some suf"
  then have p: "peelable remaining suf"
    by (auto simp: find_Some_iff)
  have "length (drop_last (length (form suf)) remaining) < length remaining"
  proof (cases "form suf = []")
    case True
    with p show ?thesis by (simp add: peelable_def drop_last_def)
  next
    case False
    have "remaining \<noteq> []"
    proof
      assume "remaining = []"
      with p have "startswith [] (rev (form suf))"
        by (simp add: peelable_def endswith_def)
      with False show False
        by (cases "rev (form suf)") simp_all
    qed
    with False show ?thesis by (simp add: drop_last_def)
  qed
  then show "((sufs, drop_last (length (form suf)) remaining, suf # found),
              (sufs, remaining, found)) \<in> measure (\<lambda>(sufs, remaining, found). length remaining)"
    by simp
qed

declare peel.simps [simp del]

text \<open>What the code puts at the front for the residual: the index entry of that form
  if there is one, else the \<open>UNKNOWN-ROOT\<close> placeholder unless the residual is empty.\<close>

definition root_part :: "BMorpheme list \<Rightarrow> string \<Rightarrow> BMorpheme list" where
  "root_part tbl remaining =
     (case MORPHEME_INDEX tbl remaining of
        Some m \<Rightarrow> [m]
      | None \<Rightarrow>
          (if remaining \<noteq> [] then [BM remaining ''UNKNOWN-ROOT'' ''root'' ''not yet in database'']
           else []))"

text \<open>\<open>analyze_morphemes\<close>, in its second definition, which replaces the first (the one
  that names the undefined table \<open>MORPHERES\<close>) when the module is loaded.\<close>

definition analyze_morphemes :: "BMorpheme list \<Rightarrow> string \<Rightarrow> BMorpheme list" where
  "analyze_morphemes tbl sfo_word =
     (case peel (suffixes tbl) sfo_word [] of
        (remaining, found) \<Rightarrow> root_part tbl remaining @ found)"

text \<open>The two components of the state in which the loop stops: the residual and the
  suffixes that were stripped.\<close>

definition residual :: "BMorpheme list \<Rightarrow> string \<Rightarrow> string" where
  "residual tbl w = fst (peel (suffixes tbl) w [])"

definition peeled :: "BMorpheme list \<Rightarrow> string \<Rightarrow> BMorpheme list" where
  "peeled tbl w = snd (peel (suffixes tbl) w [])"

section \<open>The translator of \<open>translator.py\<close>\<close>

subsection \<open>Data model\<close>

record Morpheme =
  surface :: string
  gloss :: string
  role :: string
  m_notes :: "string option"

text \<open>\<open>Morpheme(surface, gloss, role)\<close>, with the default \<open>notes=None\<close>.\<close>

definition Mo :: "string \<Rightarrow> string \<Rightarrow> string \<Rightarrow> Morpheme" where
  "Mo s g r = \<lparr>surface = s, gloss = g, role = r, m_notes = None\<rparr>"

record WordEntry =
  headword :: string
  english :: string
  part_of_speech :: string
  animacy :: "string option"
  morphemes :: "Morpheme list"
  register :: "string option"
  worldview_tags :: "string list option"
  examples :: "string list option"

record AnalysisResult =
  word :: string
  entry :: "WordEntry option"
  guessed_morphemes :: "Morpheme list"
  animacy_guess :: "string option"
  worldview_notes :: "string list"

text \<open>The dictionary built by \<open>AnalysisResult.to_dict\<close>.\<close>

record AnalysisDict =
  d_word :: string
  d_has_entry :: bool
  d_entry :: "WordEntry option"
  d_guessed_morphemes :: "Morpheme list"
  d_animacy_guess :: "string option"
  d_worldview_notes :: "string list"

definition to_dict :: "AnalysisResult \<Rightarrow> AnalysisDict" where
  "to_dict r =
     \<lparr>d_word = word r, d_has_entry = (entry r \<noteq> None), d_entry = entry r,
      d_guessed_morphemes = guessed_morphemes r, d_animacy_guess = animacy_guess r,
      d_worldview_notes = worldview_notes r\<rparr>"

record GenerationRequest =
  concept :: string
  purpose :: string
  domain_tags :: "string list"

record GenerationCandidate =
  cand_word :: string
  breakdown :: "Morpheme list"
  explanation :: string
  caution :: string

text \<open>The dictionary returned by \<open>analyze_sentence\<close>.\<close>

record SentenceAnalysis =
  sentence :: string
  tokens :: "string list"
  analyses :: "AnalysisDict list"

subsection \<open>The seed lexicon and the hint tables\<close>

text \<open>A Python \<open>dict\<close> keeps its keys in insertion order; the lexicon and the hint
  tables are association lists in that order.\<close>

type_synonym lexicon = "(string \<times> WordEntry) list"

text \<open>The helper \<open>W\<close> of \<open>_init_lexicon\<close>, with its keyword arguments as options.\<close>

definition W :: "string \<Rightarrow> string \<Rightarrow> string \<Rightarrow> string option \<Rightarrow> Morpheme list \<Rightarrow>
    string list option \<Rightarrow> string option \<Rightarrow> string list option \<Rightarrow> WordEntry" where
  "W hw en pos an ms kw_tags kw_register kw_examples =
     \<lparr>headword = hw, english = en, part_of_speech = pos, animacy = an, morphemes = ms,
      register = kw_register,
      worldview_tags = Some (case kw_tags of None \<Rightarrow> [] | Some t \<Rightarrow> t),
      examples = Some (case kw_examples of None \<Rightarrow> [] | Some e \<Rightarrow> e)\<rparr>"

definition arrow :: string where
  "arrow = [CHR 0xE2, CHR 0x86, CHR 0x92]"

definition en_dash :: string where
  "en_dash = [CHR 0xE2, CHR 0x80, CHR 0x93]"

definition LEXICON_CORE :: lexicon where
  "LEXICON_CORE =
    [(''kesalul'',
      W ''kesalul'' ''I love you'' ''VTA-1sg>2'' (Some ''animate'')
        [Mo ''ke-'' ''1st person acting (I)'' ''prefix'',
         Mo ''sal'' ''love / precious'' ''root'',
         Mo ''-ul'' (''1'' @ arrow @ ''2 object (you)'') ''final'']
        (Some [''kinship'', ''emotion'']) None
        (Some [''Kesalul nikmaq. '' @ en_dash @ '' I love you, my relations.''])),
     (''kesa'lul'',
      W ''kesa'lul'' ''I hurt you'' ''VTA-1sg>2'' (Some ''animate'')
        [Mo ''ke-'' ''1st person acting (I)'' ''prefix'',
         Mo (''sa'' @ [CHR 0x27]) ''hurt / pain'' ''root'',
         Mo ''-ul'' (''1'' @ arrow @ ''2 object (you)'') ''final'']
        (Some [''emotion'', ''harm'']) None None),
     (''ke'sa'lul'',
      W ''ke'sa'lul'' ''I place you into the fire (as offering/prayer)'' ''VTA-1sg>2''
        (Some ''animate'')
        [Mo ''ke'-'' ''into / into the fire'' ''preverb'',
         Mo (''sa'' @ [CHR 0x27]) ''put / place'' ''root'',
         Mo ''-lul'' (''1'' @ arrow @ ''2 object'') ''final'']
        (Some [''ceremony'', ''offering'', ''fire'']) None None),
     (''tekek'',
      W ''tekek'' ''it is cold'' ''VII'' (Some ''inanimate'')
        [Mo ''tekek'' ''cold (inanimate state)'' ''root'']
        (Some [''weather'', ''state'']) None None),
     (''nme'jik'',
      W ''nme'jik'' ''fishes'' ''NA-pl'' (Some ''animate'')
        [Mo (''nme'' @ [CHR 0x27]) ''fish'' ''root'',
         Mo ''-jik'' ''animate plural'' ''suffix'']
        (Some [''animals'', ''water'']) None None),
     (''msit no'kmaq'',
      W ''msit no'kmaq'' ''all my relations'' ''expression'' None
        [Mo ''msit'' ''all'' ''quantifier'',
         Mo ''no'kmaq'' ''my relations / all my kin'' ''noun'']
        (Some [''msit_nokmaq'', ''philosophy'', ''relation'']) (Some ''ceremonial'') None)]"

definition ANIMACY_HINTS :: "(string \<times> string) list" where
  "ANIMACY_HINTS =
    [(''nme'' @ [CHR 0x27], ''animate''),
     (''kataq'', ''animate''),
     (''waisik'', ''animate''),
     (''weskaq'', ''inanimate'')]"

definition WORLDVIEW_HINTS :: "(string \<times> string) list" where
  "WORLDVIEW_HINTS =
    [(''msit'', ''Msit No'kmaq '' @ en_dash @ '' all is related.''),
     (''no'kmaq'', ''Relational kinship, not just biological family.''),
     (''nipugt'', ''In the woods / territory context.''),
     (''samqwan'', ''Water context '' @ en_dash @ '' river, lake, ocean.''),
     (''e's'', ''Process / becoming; states often verbs, not nouns.'')]"

subsection \<open>Heuristics\<close>

text \<open>\<open>guess_animacy\<close> and \<open>collect_worldview_notes\<close>; \<open>str_lower\<close> stands for
  \<open>str.lower\<close>.\<close>

definition guess_animacy_with :: "(string \<Rightarrow> string) \<Rightarrow> string \<Rightarrow> string option" where
  "guess_animacy_with str_lower w =
     (let word_lower = str_lower w in
      case find (\<lambda>(frag, anim). py_in frag word_lower) ANIMACY_HINTS of
        Some (frag, anim) \<Rightarrow> Some anim
      | None \<Rightarrow>
          if endswith word_lower ''jik'' then Some ''animate''
          else if endswith word_lower ''l'' \<or> endswith word_lower ''k'' then None
          else None)"

definition collect_worldview_notes_with :: "(string \<Rightarrow> string) \<Rightarrow> string \<Rightarrow> string list" where
  "collect_worldview_notes_with str_lower w =
     (let lowered = str_lower w in
      map snd (filter (\<lambda>(frag, note). py_in frag lowered) WORLDVIEW_HINTS))"



subsection \<open>\<open>LnuTranslator\<close>\<close>

text \<open>\<open>self.lexicon = lexicon or LEXICON_CORE\<close>: no lexicon and an empty one both give the
  seed lexicon. The functions below take \<open>self.lexicon\<close> as an argument.\<close>

definition init_lexicon :: "lexicon option \<Rightarrow> lexicon" where
  "init_lexicon l =
     (case l of None \<Rightarrow> LEXICON_CORE | Some lxn \<Rightarrow> if lxn = [] then LEXICON_CORE else lxn)"

text \<open>\<open>lookup\<close>; \<open>str_strip\<close> and \<open>str_lower\<close> stand for \<open>str.strip\<close> and \<open>str.lower\<close>.\<close>

definition lookup_with ::
  "(string \<Rightarrow> string) \<Rightarrow> (string \<Rightarrow> string) \<Rightarrow> lexicon \<Rightarrow> string \<Rightarrow> WordEntry option" where
  "lookup_with str_strip str_lower lxn w =
     (let key = str_strip w in
      case map_of lxn key of
        Some e \<Rightarrow> Some e
      | None \<Rightarrow>
          (case find (\<lambda>(hw, e). str_lower hw = str_lower key) lxn of
             Some (hw, e) \<Rightarrow> Some e
           | None \<Rightarrow> None))"

text \<open>\<open>lookup\<close> on ASCII text.\<close>

definition lookup :: "lexicon \<Rightarrow> string \<Rightarrow> WordEntry option" where
  "lookup lxn w = lookup_with strip lower lxn w"

definition jik_note :: string where
  "jik_note = ''-jik often marks animate plural (people, animals, living beings).''"

definition apostrophe_note :: string where
  "apostrophe_note = ''Apostrophes often mark long vowels or morpheme boundaries.''"

definition no_entry_note :: string where
  "no_entry_note =
     ''No lexicon entry yet. This is a good candidate to confirm with fluent speakers.''"

text \<open>The pattern heuristics of the miss branch: the guessed morphemes and the notes
  they add, before the fallback.\<close>

definition pattern_guess :: "string \<Rightarrow> Morpheme list \<times> string list" where
  "pattern_guess w =
     (if endswith w ''jik'' then
        ([Mo (drop_last 3 w) ''possible animate root'' ''root'',
          Mo ''-jik'' ''animate plural'' ''suffix''],
         [jik_note])
      else if py_in [CHR 0x27] w then
        (map (\<lambda>p. Mo p ''possible morpheme'' ''unknown'')
           (filter (\<lambda>p. p \<noteq> []) (split_on (CHR 0x27) [] w)),
         [apostrophe_note])
      else ([], []))"

text \<open>\<open>analyze_word\<close>. The test \<open>if entry:\<close> holds for every \<open>WordEntry\<close> (a dataclass
  with neither \<open>__bool__\<close> nor \<open>__len__\<close>), so the first branch is taken exactly when
  \<open>lookup\<close> returns an entry. In the other branch the lists \<open>guessed\<close> and \<open>notes\<close> grow
  by appending; the bindings below are their successive extensions, in the order of the
  statements. The function has no other exit: every call returns an \<open>AnalysisResult\<close>.\<close>

definition analyze_word_with ::
  "(string \<Rightarrow> string) \<Rightarrow> (string \<Rightarrow> string) \<Rightarrow> lexicon \<Rightarrow> string \<Rightarrow> AnalysisResult" where
  "analyze_word_with str_strip str_lower lxn w =
     (case lookup_with str_strip str_lower lxn w of
        Some e \<Rightarrow>
          \<lparr>word = w, entry = Some e, guessed_morphemes = [], animacy_guess = animacy e,
           worldview_notes =
             collect_worldview_notes_with str_lower (headword e) @
             (case worldview_tags e of
                None \<Rightarrow> []
              | Some tags \<Rightarrow>
                  if tags \<noteq> [] then [''Worldview tags: '' @ join '', '' tags] else [])\<rparr>
      | None \<Rightarrow>
          (let anim_guess = guess_animacy_with str_lower w;
               notes0 = collect_worldview_notes_with str_lower w;
               (guessed1, notes1) = pattern_guess w;
               (guessed2, notes2) =
                 (if guessed1 = [] then
                    ([Mo w (''unknown '' @ en_dash @ '' add to lexicon with elders'') ''unknown''],
                     [no_entry_note])
                  else (guessed1, []));
               notes3 =
                 (case anim_guess of
                    None \<Rightarrow> []
                  | Some a \<Rightarrow> if a \<noteq> [] then [''Animacy guess: '' @ a @ ''.''] else [])
           in \<lparr>word = w, entry = None, guessed_morphemes = guessed2,
               animacy_guess = anim_guess,
               worldview_notes = notes0 @ notes1 @ notes2 @ notes3\<rparr>))"


text \<open>The tokens of \<open>analyze_sentence\<close>:
  \<open>[t for t in sentence.replace(",", " ").split() if t]\<close>.\<close>

definition tokenize :: "string \<Rightarrow> string list" where
  "tokenize s = filter (\<lambda>t. t \<noteq> []) (split_ws [] (replace_comma s))"

definition analyze_sentence_with ::
  "(string \<Rightarrow> string) \<Rightarrow> (string \<Rightarrow> string) \<Rightarrow> lexicon \<Rightarrow> string \<Rightarrow> SentenceAnalysis" where
  "analyze_sentence_with str_strip str_lower lxn s =
     (let toks = tokenize s in
      \<lparr>sentence = s, tokens = toks,
       analyses = map (\<lambda>tok. to_dict (analyze_word_with str_strip str_lower lxn tok)) toks\<rparr>)"

text \<open>\<open>str.capitalize\<close>: the first character in upper case, the rest in lower case.\<close>

definition upper_char :: "char \<Rightarrow> char" where
  "upper_char c =
     (case map_of (zip ''abcdefghijklmnopqrstuvwxyz'' ''ABCDEFGHIJKLMNOPQRSTUVWXYZ'') c of
        Some d \<Rightarrow> d
      | None \<Rightarrow> c)"

definition capitalize :: "string \<Rightarrow> string" where
  "capitalize s = (case s of [] \<Rightarrow> [] | c # cs \<Rightarrow> upper_char c # lower cs)"

text \<open>The candidate of the refrigerator pattern and the generic fallback candidate.\<close>

definition refrigerator_candidate :: GenerationCandidate where
  "refrigerator_candidate =
     \<lparr>cand_word = ''Mesentaqtekekim'',
      breakdown =
        [Mo ''mesen-'' ''to keep / maintain'' ''preverb'',
         Mo ''taq-'' ''inside / container / dwelling'' ''root-ish'',
         Mo ''tekek'' ''cold (inanimate state)'' ''root'',
         Mo ''-im'' ''instrument / thing that does this'' ''suffix''],
      explanation =
        ''Built from mesen- (to keep/maintain) + taq (inside) + tekek (cold) '' @
        ''+ -im (instrument). Rough sense: 'the thing that keeps the inside cold'.'',
      caution =
        ''Prototype only. Confirm phonology, stress and cultural fit with fluent '' @
        ''Mi'kmaw speakers and elders before adopting. Adjust spelling to local dialect.''\<rparr>"

definition base_root :: string where
  "base_root = ''apoqnmatultim''"

definition generic_candidate :: GenerationCandidate where
  "generic_candidate =
     \<lparr>cand_word = capitalize base_root @ ''ik'',
      breakdown =
        [Mo base_root ''to help / support (placeholder root)'' ''root'',
         Mo ''-ik'' ''thing which does this'' ''suffix''],
      explanation =
        ''Generic helper pattern: root meaning 'to help/support' + -ik (instrument). '' @
        ''Use this only as a brainstorming starting point.'',
      caution =
        ''Generic pattern. Replace the root with a better verb that reflects the purpose '' @
        ''once you consult speakers (e.g., a more specific verb for how the object acts).''\<rparr>"

text \<open>The test of the one hand-written pattern.\<close>

definition refrigerator_pattern :: "GenerationRequest \<Rightarrow> bool" where
  "refrigerator_pattern req =
     (py_in ''refrigerator'' (lower (concept req)) \<or>
      (py_in ''cold'' (lower (purpose req)) \<and> py_in ''food'' (lower (purpose req))))"

definition generate_modern_term :: "GenerationRequest \<Rightarrow> GenerationCandidate list" where
  "generate_modern_term req =
     (if refrigerator_pattern req then [refrigerator_candidate] else []) @ [generic_candidate]"

subsection \<open>Tokenisation as the specification words it\<close>

text \<open>The specification describes the tokens of a sentence as the pieces between
  separators, a separator being a white-space character or a comma, with the empty pieces
  dropped. \<open>spec_tokenize\<close> follows these words; \<open>tokenize\<close> above follows the code.\<close>

definition separator_at :: "string \<Rightarrow> string option" where
  "separator_at s = (if startswith s '','' then Some '','' else ws_at s)"

function split_at_separators :: "string \<Rightarrow> string \<Rightarrow> string list" where
  "split_at_separators cur [] = [cur]"
| "split_at_separators cur (c # cs) =
     (case separator_at (c # cs) of
        Some sep \<Rightarrow> cur # split_at_separators [] (drop (length sep) (c # cs))
      | None \<Rightarrow> split_at_separators (cur @ [c]) cs)"
  by pat_completeness auto

termination split_at_separators
proof (relation "measure (\<lambda>(cur, s). length s)")
  show "wf (measure (\<lambda>(cur, s). length s))" by simp
next
  fix cur :: string and c :: char and cs sep :: string
  assume a: "separator_at (c # cs) = Some sep"
  have "sep \<noteq> []"
  proof (cases "c = CHR '',''")
    case True
    with a show ?thesis by (auto simp: separator_at_def)
  next
    case False
    with a have "ws_at (c # cs) = Some sep" by (simp add: separator_at_def)
    then have "sep \<in> set WHITESPACE"
      by (auto simp: ws_at_def find_Some_iff)
    moreover have "[] \<notin> set WHITESPACE"
      by (simp add: WHITESPACE_def)
    ultimately show ?thesis by blast
  qed
  then show "(([], drop (length sep) (c # cs)), (cur, c # cs)) \<in> measure (\<lambda>(cur, s). length s)"
    by simp
next
  fix cur :: string and c :: char and cs :: string
  show "((cur @ [c], cs), (cur, c # cs)) \<in> measure (\<lambda>(cur, s). length s)"
    by simp
qed

definition spec_tokenize :: "string \<Rightarrow> string list" where
  "spec_tokenize s = filter (\<lambda>t. t \<noteq> []) (split_at_separators [] s)"

section \<open>Properties of the segmenter\<close>

subsection \<open>Strings and the loop\<close>

lemma startswith_iff: "startswith s p \<longleftrightarrow> (\<exists>t. s = p @ t)"
  by (induction s p rule: startswith.induct) auto

lemma endswith_iff: "endswith s p \<longleftrightarrow> (\<exists>t. s = t @ p)"
proof
  assume "endswith s p"
  then obtain t where "rev s = rev p @ t"
    by (auto simp: endswith_def startswith_iff)
  then have "s = rev t @ p"
    by (metis rev_append rev_rev_ident)
  then show "\<exists>t. s = t @ p" ..
next
  assume "\<exists>t. s = t @ p"
  then show "endswith s p"
    by (auto simp: endswith_def startswith_iff)
qed

lemma peelable_split:
  assumes "peelable r suf" and "form suf \<noteq> []"
  shows "\<exists>t. t \<noteq> [] \<and> r = t @ form suf \<and> drop_last (length (form suf)) r = t"
proof -
  from assms(1) obtain t where t: "r = t @ form suf" and ne: "r \<noteq> form suf"
    by (auto simp: peelable_def endswith_iff)
  from t ne have "t \<noteq> []" by auto
  moreover from t assms(2) have "drop_last (length (form suf)) r = t"
    by (simp add: drop_last_def)
  ultimately show ?thesis using t by blast
qed

lemma peel_None: "find (peelable r) sufs = None \<Longrightarrow> peel sufs r f = (r, f)"
  by (simp add: peel.simps)

lemma peel_Some:
  "find (peelable r) sufs = Some suf \<Longrightarrow>
   peel sufs r f = peel sufs (drop_last (length (form suf)) r) (suf # f)"
  by (simp add: peel.simps[of sufs r])

lemma peel_concat:
  assumes "\<forall>m \<in> set sufs. form m \<noteq> []"
  shows "fst (peel sufs r f) @ concat (map form (snd (peel sufs r f))) = r @ concat (map form f)"
  using assms
proof (induction sufs r f rule: peel.induct)
  case (1 sufs remaining found)
  show ?case
  proof (cases "find (peelable remaining) sufs")
    case None
    then show ?thesis by (simp add: peel_None)
  next
    case (Some suf)
    then have p: "peelable remaining suf" and mem: "suf \<in> set sufs"
      by (auto simp: find_Some_iff)
    with "1.prems" have "form suf \<noteq> []" by blast
    with p obtain t where t: "remaining = t @ form suf"
      "drop_last (length (form suf)) remaining = t"
      using peelable_split by blast
    have step: "peel sufs remaining found = peel sufs t (suf # found)"
      using peel_Some[OF Some] t(2) by simp
    have "fst (peel sufs t (suf # found)) @ concat (map form (snd (peel sufs t (suf # found))))
          = t @ concat (map form (suf # found))"
      using "1.IH"[OF Some "1.prems"] t(2) by simp
    then show ?thesis
      unfolding step using t(1) by simp
  qed
qed

lemma peel_residual_nonempty:
  assumes "\<forall>m \<in> set sufs. form m \<noteq> []" and "r \<noteq> []"
  shows "fst (peel sufs r f) \<noteq> []"
  using assms
proof (induction sufs r f rule: peel.induct)
  case (1 sufs remaining found)
  show ?case
  proof (cases "find (peelable remaining) sufs")
    case None
    with "1.prems" show ?thesis by (simp add: peel_None)
  next
    case (Some suf)
    then have p: "peelable remaining suf" and mem: "suf \<in> set sufs"
      by (auto simp: find_Some_iff)
    with "1.prems" have "form suf \<noteq> []" by blast
    with p have "drop_last (length (form suf)) remaining \<noteq> []"
      using peelable_split by fastforce
    from "1.IH"[OF Some "1.prems"(1) this] show ?thesis
      by (simp add: peel_Some[OF Some])
  qed
qed

lemma fold_index:
  "fold (\<lambda>m idx. idx(form m \<mapsto> m)) tbl idx k = Some m \<Longrightarrow>
   idx k = Some m \<or> (m \<in> set tbl \<and> form m = k)"
  by (induction tbl arbitrary: idx) (fastforce split: if_splits)+

lemma MORPHEME_INDEX_Some:
  "MORPHEME_INDEX tbl k = Some m \<Longrightarrow> m \<in> set tbl \<and> form m = k"
  using fold_index[of tbl Map.empty k m] by (simp add: MORPHEME_INDEX_def)

lemma fold_index_dom:
  "fold (\<lambda>m idx. idx(form m \<mapsto> m)) tbl idx k = None \<longleftrightarrow>
   idx k = None \<and> k \<notin> form ` set tbl"
  by (induction tbl arbitrary: idx) auto

lemma MORPHEME_INDEX_None:
  "MORPHEME_INDEX tbl k = None \<longleftrightarrow> k \<notin> form ` set tbl"
  by (simp add: MORPHEME_INDEX_def fold_index_dom)

lemma root_part_concat: "concat (map form (root_part tbl r)) = r"
  by (auto simp: root_part_def BM_def dest: MORPHEME_INDEX_Some split: option.splits)

lemma set_suffixes: "set (suffixes tbl) = {m \<in> set tbl. b_type m = ''suffix''}"
  by (simp add: suffixes_def)

lemma analyze_morphemes_concat:
  assumes "\<forall>m \<in> set tbl. b_type m = ''suffix'' \<longrightarrow> form m \<noteq> []"
  shows "concat (map form (analyze_morphemes tbl w)) = w"
proof -
  from assms have "\<forall>m \<in> set (suffixes tbl). form m \<noteq> []"
    by (simp add: set_suffixes)
  from peel_concat[OF this, of w "[]"] show ?thesis
    by (simp add: analyze_morphemes_def split_beta root_part_concat)
qed

lemma MORPHEMES_suffix_forms:
  "\<forall>m \<in> set MORPHEMES. b_type m = ''suffix'' \<longrightarrow> form m \<noteq> []"
  by (simp add: MORPHEMES_def BM_def)

lemma analyze_morphemes_parts:
  "analyze_morphemes tbl w = root_part tbl (residual tbl w) @ peeled tbl w"
  by (simp add: analyze_morphemes_def residual_def peeled_def split_beta)

lemma suffixes_sorted:
  "sorted_wrt (\<lambda>a b. length (form b) \<le> length (form a)) (suffixes tbl)"
proof -
  have "sorted (map (\<lambda>m. - int (length (form m))) (suffixes tbl))"
    unfolding suffixes_def by (rule sorted_sort_key)
  then show ?thesis by (simp add: sorted_map)
qed

lemma suffixes_stable:
  "filter (\<lambda>m. length (form m) = k) (suffixes tbl) =
   filter (\<lambda>m. length (form m) = k) (filter (\<lambda>m. b_type m = ''suffix'') tbl)"
proof -
  have "filter (\<lambda>m. - int (length (form m)) = - int k) (suffixes tbl) =
        filter (\<lambda>m. - int (length (form m)) = - int k) (filter (\<lambda>m. b_type m = ''suffix'') tbl)"
    unfolding suffixes_def by (rule sort_key_stable)
  then show ?thesis by simp
qed

lemma find_sorted_longest:
  assumes "sorted_wrt (\<lambda>a b. length (form b) \<le> length (form a)) xs"
    and "find P xs = Some suf" and "m \<in> set xs" and "P m"
  shows "length (form m) \<le> length (form suf)"
proof -
  from assms(2) obtain i where i: "i < length xs" "suf = xs ! i" "\<forall>j<i. \<not> P (xs ! j)"
    by (auto simp: find_Some_iff)
  from assms(3) obtain j where j: "j < length xs" "m = xs ! j"
    by (auto simp: in_set_conv_nth)
  with assms(4) i(3) have "i \<le> j" by (meson not_le)
  show ?thesis
  proof (cases "i = j")
    case True
    with i j show ?thesis by simp
  next
    case False
    with \<open>i \<le> j\<close> have "i < j" by simp
    with assms(1) j(1) have "length (form (xs ! j)) \<le> length (form (xs ! i))"
      by (simp add: sorted_wrt_iff_nth_less)
    with i j show ?thesis by simp
  qed
qed

lemma example_welotasi:
  "analyze_morphemes MORPHEMES ''welo'tasi'' =
     [BM (''welo'' @ [CHR 0x27]) ''UNKNOWN-ROOT'' ''root'' ''not yet in database'',
      BM ''tasi'' ''in state/condition of'' ''suffix'' '''']"
  by (simp add: analyze_morphemes_def suffixes_def MORPHEMES_def BM_def peel.simps peelable_def
      endswith_def drop_last_def root_part_def MORPHEME_INDEX_def)

lemma suffixes_MORPHEMES:
  "suffixes MORPHEMES =
     [BM ''aqan'' ''motion of arm/elbow, waving'' ''suffix'' ''used in weenieraqn joke'',
      BM ''tasi'' ''in state/condition of'' ''suffix'' '''',
      BM ''qan'' (''device / instrument / 'thing that does it'' @ [CHR 0x27]) ''suffix'' '''',
      BM ''ul'' ''to make, to cause'' ''suffix'' ''device/action builder'',
      BM ''si'' ''I am (stative in some forms)'' ''suffix'' '''']"
  by (simp add: suffixes_def MORPHEMES_def BM_def)

subsection \<open>The claims about the segmenter\<close>

text \<open>
  Claim C2. The candidate suffixes are exactly the table entries of type \<open>suffix\<close>, in
  descending order of the length of their form; entries of one length keep the order of
  the table (the sort is stable). At each step of the loop the suffix that is stripped is
  a longest one among those that can be stripped, and the loop goes on with the shortened
  residual. With the seed table, in which \<open>si\<close> comes before \<open>tasi\<close>, the word
  \<open>welo'tasi\<close> is segmented into the root \<open>welo'\<close> and the suffix \<open>tasi\<close>.
\<close>

theorem candidate_suffixes_longest_first:
  "set (suffixes tbl) = {m \<in> set tbl. b_type m = ''suffix''} \<and>
   sorted_wrt (\<lambda>a b. length (form b) \<le> length (form a)) (suffixes tbl) \<and>
   (\<forall>k. filter (\<lambda>m. length (form m) = k) (suffixes tbl) =
        filter (\<lambda>m. length (form m) = k) (filter (\<lambda>m. b_type m = ''suffix'') tbl)) \<and>
   (\<forall>r f suf. find (peelable r) (suffixes tbl) = Some suf \<longrightarrow>
        peelable r suf \<and>
        (\<forall>m \<in> set (suffixes tbl). peelable r m \<longrightarrow> length (form m) \<le> length (form suf)) \<and>
        peel (suffixes tbl) r f =
          peel (suffixes tbl) (drop_last (length (form suf)) r) (suf # f)) \<and>
   analyze_morphemes MORPHEMES ''welo'tasi'' =
     [BM (''welo'' @ [CHR 0x27]) ''UNKNOWN-ROOT'' ''root'' ''not yet in database'',
      BM ''tasi'' ''in state/condition of'' ''suffix'' '''']"
proof (intro conjI allI impI ballI)
  show "set (suffixes tbl) = {m \<in> set tbl. b_type m = ''suffix''}"
    by (rule set_suffixes)
  show "sorted_wrt (\<lambda>a b. length (form b) \<le> length (form a)) (suffixes tbl)"
    by (rule suffixes_sorted)
  show "filter (\<lambda>m. length (form m) = k) (suffixes tbl) =
        filter (\<lambda>m. length (form m) = k) (filter (\<lambda>m. b_type m = ''suffix'') tbl)" for k
    by (rule suffixes_stable)
  show "analyze_morphemes MORPHEMES ''welo'tasi'' =
     [BM (''welo'' @ [CHR 0x27]) ''UNKNOWN-ROOT'' ''root'' ''not yet in database'',
      BM ''tasi'' ''in state/condition of'' ''suffix'' '''']"
    by (rule example_welotasi)
next
  fix r suf
  assume "find (peelable r) (suffixes tbl) = Some suf"
  then show "peelable r suf" by (auto simp: find_Some_iff)
next
  fix r suf m
  assume "find (peelable r) (suffixes tbl) = Some suf" "m \<in> set (suffixes tbl)" "peelable r m"
  with suffixes_sorted show "length (form m) \<le> length (form suf)"
    by (rule find_sorted_longest)
next
  fix r f suf
  assume "find (peelable r) (suffixes tbl) = Some suf"
  then show "peel (suffixes tbl) r f =
          peel (suffixes tbl) (drop_last (length (form suf)) r) (suf # f)"
    by (rule peel_Some)
qed

theorem candidate_suffixes_longest_first_witness:
  "find (peelable ''welo'tasi'') (suffixes MORPHEMES) =
     Some (BM ''tasi'' ''in state/condition of'' ''suffix'' '''') \<and>
   BM ''si'' ''I am (stative in some forms)'' ''suffix'' '''' \<in> set (suffixes MORPHEMES) \<and>
   peelable ''welo'tasi'' (BM ''si'' ''I am (stative in some forms)'' ''suffix'' '''') \<and>
   length (form (BM ''si'' ''I am (stative in some forms)'' ''suffix'' '''')) \<le>
   length (form (BM ''tasi'' ''in state/condition of'' ''suffix'' '''')) \<and>
   peel (suffixes MORPHEMES) ''welo'tasi'' [] =
     peel (suffixes MORPHEMES) (''welo'' @ [CHR 0x27])
       [BM ''tasi'' ''in state/condition of'' ''suffix'' '''']"
proof -
  let ?tasi = "BM ''tasi'' ''in state/condition of'' ''suffix'' ''''"
  let ?si = "BM ''si'' ''I am (stative in some forms)'' ''suffix'' ''''"
  have f: "find (peelable ''welo'tasi'') (suffixes MORPHEMES) = Some ?tasi"
    by (simp add: suffixes_MORPHEMES peelable_def endswith_def BM_def)
  have m: "?si \<in> set (suffixes MORPHEMES)"
    by (simp add: suffixes_MORPHEMES)
  have p: "peelable ''welo'tasi'' ?si"
    by (simp add: peelable_def endswith_def BM_def)
  from candidate_suffixes_longest_first[of MORPHEMES]
  have step: "\<forall>r f suf. find (peelable r) (suffixes MORPHEMES) = Some suf \<longrightarrow>
        peelable r suf \<and>
        (\<forall>m \<in> set (suffixes MORPHEMES). peelable r m \<longrightarrow> length (form m) \<le> length (form suf)) \<and>
        peel (suffixes MORPHEMES) r f =
          peel (suffixes MORPHEMES) (drop_last (length (form suf)) r) (suf # f)"
    by blast
  from step f m p have "length (form ?si) \<le> length (form ?tasi)" by blast
  moreover from step f have "peel (suffixes MORPHEMES) ''welo'tasi'' [] =
     peel (suffixes MORPHEMES) (drop_last (length (form ?tasi)) ''welo'tasi'') [?tasi]"
    by blast
  then have "peel (suffixes MORPHEMES) ''welo'tasi'' [] =
     peel (suffixes MORPHEMES) (''welo'' @ [CHR 0x27]) [?tasi]"
    by (simp add: drop_last_def BM_def)
  ultimately show ?thesis using f m p by blast
qed

text \<open>
  Claim C7. For every word, the forms of the morphemes returned for it by the segmenter
  with the seed table, concatenated in order, are the word again. (The lemma
  \<open>analyze_morphemes_concat\<close> gives the same for every table without a suffix of empty
  form.)
\<close>

theorem segmentation_reconstructs_word:
  "concat (map form (analyze_morphemes MORPHEMES w)) = w"
  using MORPHEMES_suffix_forms by (rule analyze_morphemes_concat)

lemma suffixes_nonempty_forms:
  "\<forall>m \<in> set tbl. b_type m = ''suffix'' \<longrightarrow> form m \<noteq> [] \<Longrightarrow>
   \<forall>m \<in> set (suffixes tbl). form m \<noteq> []"
  by (simp add: set_suffixes)

lemma residual_nonempty:
  assumes "\<forall>m \<in> set tbl. b_type m = ''suffix'' \<longrightarrow> form m \<noteq> []" and "w \<noteq> []"
  shows "residual tbl w \<noteq> []"
  unfolding residual_def
  using suffixes_nonempty_forms[OF assms(1)] assms(2) by (rule peel_residual_nonempty)

lemma root_part_nonempty:
  assumes "r \<noteq> []"
  shows "\<exists>m. root_part tbl r = [m] \<and> form m = r \<and>
     (MORPHEME_INDEX tbl r = Some m \<or>
      (MORPHEME_INDEX tbl r = None \<and> m = BM r ''UNKNOWN-ROOT'' ''root'' ''not yet in database''))"
  using assms
  by (cases "MORPHEME_INDEX tbl r") (auto simp: root_part_def BM_def dest: MORPHEME_INDEX_Some)

lemma no_peel:
  assumes "\<forall>m \<in> set tbl. b_type m = ''suffix'' \<longrightarrow> \<not> peelable w m"
  shows "peel (suffixes tbl) w [] = (w, [])"
proof -
  have "find (peelable w) (suffixes tbl) = None"
    using assms by (auto simp: find_None_iff set_suffixes)
  then show ?thesis by (rule peel_None)
qed

lemmas seg_eval = analyze_morphemes_def residual_def peeled_def suffixes_def
  MORPHEMES_def BM_def peel.simps peelable_def endswith_def drop_last_def root_part_def
  MORPHEME_INDEX_def

text \<open>
  Claim C5. The code looks the residual up in \<open>MORPHEME_INDEX\<close>, which holds every
  morpheme of the table and not only the roots. For the word \<open>si\<close> nothing is stripped,
  the residual \<open>si\<close> is no root of the table, and what is put at the root position is the
  table's suffix morpheme \<open>si\<close>, not the \<open>UNKNOWN-ROOT\<close> placeholder.
\<close>

theorem residual_si_is_suffix_morpheme:
  "analyze_morphemes MORPHEMES ''si'' =
     [BM ''si'' ''I am (stative in some forms)'' ''suffix'' '''']"
  by (simp add: seg_eval)

text \<open>
  Claim C6, as stated, fails: \<open>tasi\<close> is the form of a registered suffix, yet the shorter
  suffix \<open>si\<close> is stripped from the word \<open>tasi\<close>, which comes back as the unknown root
  \<open>ta\<close> followed by the suffix \<open>si\<close>.
\<close>

theorem suffix_word_counterexample:
  "BM ''tasi'' ''in state/condition of'' ''suffix'' '''' \<in> set (suffixes MORPHEMES) \<and>
   analyze_morphemes MORPHEMES ''tasi'' =
     [BM ''ta'' ''UNKNOWN-ROOT'' ''root'' ''not yet in database'',
      BM ''si'' ''I am (stative in some forms)'' ''suffix'' '''']"
  by (simp add: seg_eval)

lemma peel_found_grows: "\<exists>g. snd (peel sufs r f) = g @ f"
proof (induction sufs r f rule: peel.induct)
  case (1 sufs remaining found)
  show ?case
  proof (cases "find (peelable remaining) sufs")
    case None
    then show ?thesis by (simp add: peel_None)
  next
    case (Some suf)
    from "1.IH"[OF Some] obtain g where
      "snd (peel sufs (drop_last (length (form suf)) remaining) (suf # found)) = g @ suf # found"
      by blast
    then have "snd (peel sufs remaining found) = (g @ [suf]) @ found"
      by (simp add: peel_Some[OF Some])
    then show ?thesis by blast
  qed
qed

lemma peeled_empty_iff:
  "peeled tbl w = [] \<longleftrightarrow> (\<forall>m \<in> set tbl. b_type m = ''suffix'' \<longrightarrow> \<not> peelable w m)"
proof
  assume e: "peeled tbl w = []"
  have "find (peelable w) (suffixes tbl) = None"
  proof (cases "find (peelable w) (suffixes tbl)")
    case None
    then show ?thesis .
  next
    case (Some suf)
    from peel_found_grows[of "suffixes tbl" "drop_last (length (form suf)) w" "[suf]"]
    have "snd (peel (suffixes tbl) w []) \<noteq> []"
      by (auto simp: peel_Some[OF Some])
    with e show ?thesis by (simp add: peeled_def)
  qed
  then show "\<forall>m \<in> set tbl. b_type m = ''suffix'' \<longrightarrow> \<not> peelable w m"
    by (auto simp: find_None_iff set_suffixes)
next
  assume "\<forall>m \<in> set tbl. b_type m = ''suffix'' \<longrightarrow> \<not> peelable w m"
  then have "peel (suffixes tbl) w [] = (w, [])" by (rule no_peel)
  then show "peeled tbl w = []" by (simp add: peeled_def)
qed

text \<open>
  Claim C6, amended. A suffix that is stripped is never the whole residual; so, with a
  table that has no suffix of empty form, the residual of a non-empty word is never empty,
  and the result is never an empty root followed by a suffix. From a non-empty word that
  is the form of a registered suffix, no suffix is stripped exactly when no registered
  suffix is a proper ending of the word (as for \<open>si\<close> with the seed table, and unlike
  \<open>tasi\<close>, of which \<open>si\<close> is a proper ending); when none is stripped, the residual is the
  whole word and the result is a single morpheme, at the root position, whose form is the
  word.
\<close>

theorem suffix_word_guard:
  "(\<forall>r suf. find (peelable r) (suffixes tbl) = Some suf \<longrightarrow> form suf \<noteq> r) \<and>
   ((\<forall>m \<in> set tbl. b_type m = ''suffix'' \<longrightarrow> form m \<noteq> []) \<and> w \<noteq> [] \<longrightarrow>
      residual tbl w \<noteq> []) \<and>
   (w \<noteq> [] \<and> (\<exists>s \<in> set tbl. b_type s = ''suffix'' \<and> form s = w) \<longrightarrow>
      (peeled tbl w = [] \<longleftrightarrow>
         (\<forall>m \<in> set tbl. b_type m = ''suffix'' \<longrightarrow> \<not> peelable w m)) \<and>
      (peeled tbl w = [] \<longrightarrow>
         residual tbl w = w \<and> (\<exists>m. analyze_morphemes tbl w = [m] \<and> form m = w)))"
proof (intro conjI allI impI)
  fix r suf
  assume "find (peelable r) (suffixes tbl) = Some suf"
  then have "peelable r suf" by (auto simp: find_Some_iff)
  then show "form suf \<noteq> r" by (auto simp: peelable_def)
next
  assume "(\<forall>m \<in> set tbl. b_type m = ''suffix'' \<longrightarrow> form m \<noteq> []) \<and> w \<noteq> []"
  then show "residual tbl w \<noteq> []" by (simp add: residual_nonempty)
next
  show "peeled tbl w = [] \<longleftrightarrow>
      (\<forall>m \<in> set tbl. b_type m = ''suffix'' \<longrightarrow> \<not> peelable w m)"
    by (rule peeled_empty_iff)
next
  assume e: "peeled tbl w = []"
  then have "\<forall>m \<in> set tbl. b_type m = ''suffix'' \<longrightarrow> \<not> peelable w m"
    by (simp add: peeled_empty_iff)
  then have "peel (suffixes tbl) w [] = (w, [])" by (rule no_peel)
  then show "residual tbl w = w" by (simp add: residual_def)
next
  assume a: "w \<noteq> [] \<and> (\<exists>s \<in> set tbl. b_type s = ''suffix'' \<and> form s = w)"
    and e: "peeled tbl w = []"
  from e have "\<forall>m \<in> set tbl. b_type m = ''suffix'' \<longrightarrow> \<not> peelable w m"
    by (simp add: peeled_empty_iff)
  then have "peel (suffixes tbl) w [] = (w, [])" by (rule no_peel)
  then have r: "analyze_morphemes tbl w = root_part tbl w"
    by (simp add: analyze_morphemes_def)
  from a have "w \<noteq> []" by simp
  from root_part_nonempty[OF this, of tbl] obtain m where
    "root_part tbl w = [m]" "form m = w"
    by blast
  with r show "\<exists>m. analyze_morphemes tbl w = [m] \<and> form m = w" by simp
qed

theorem suffix_word_guard_witness:
  "find (peelable ''tasi'') (suffixes MORPHEMES) =
     Some (BM ''si'' ''I am (stative in some forms)'' ''suffix'' []) \<and>
   form (BM ''si'' ''I am (stative in some forms)'' ''suffix'' []) \<noteq> ''tasi'' \<and>
   \<not> list_ex (\<lambda>m. form m = []) (filter (\<lambda>m. b_type m = ''suffix'') MORPHEMES) \<and>
   ''tasi'' \<noteq> [] \<and>
   residual MORPHEMES ''tasi'' \<noteq> [] \<and>
   ''si'' \<noteq> [] \<and>
   BM ''si'' ''I am (stative in some forms)'' ''suffix'' [] \<in> set MORPHEMES \<and>
   \<not> list_ex (peelable ''si'') (filter (\<lambda>m. b_type m = ''suffix'') MORPHEMES) \<and>
   peeled MORPHEMES ''si'' = [] \<and> residual MORPHEMES ''si'' = ''si'' \<and>
   length (analyze_morphemes MORPHEMES ''si'') = 1 \<and>
   concat (map form (analyze_morphemes MORPHEMES ''si'')) = ''si'' \<and>
   BM ''tasi'' ''in state/condition of'' ''suffix'' [] \<in> set MORPHEMES \<and>
   peelable ''tasi'' (BM ''si'' ''I am (stative in some forms)'' ''suffix'' []) \<and>
   peeled MORPHEMES ''tasi'' \<noteq> []"
proof -
  let ?si = "BM ''si'' ''I am (stative in some forms)'' ''suffix'' []"
  let ?tasi = "BM ''tasi'' ''in state/condition of'' ''suffix'' []"
  have f: "find (peelable ''tasi'') (suffixes MORPHEMES) = Some ?si"
    by (simp add: suffixes_MORPHEMES peelable_def endswith_def BM_def)
  note g1 = suffix_word_guard[of MORPHEMES "''si''", THEN conjunct1, rule_format, OF f]
  have ns: "\<not> list_ex (\<lambda>m. form m = []) (filter (\<lambda>m. b_type m = ''suffix'') MORPHEMES)"
    by (simp add: MORPHEMES_def BM_def)
  have ne: "''tasi'' \<noteq> []" by simp
  note g2 = suffix_word_guard[of MORPHEMES "''tasi''", THEN conjunct2, THEN conjunct1, rule_format,
      OF conjI[OF MORPHEMES_suffix_forms ne]]
  have ne2: "''si'' \<noteq> []" by simp
  have mem: "?si \<in> set MORPHEMES" by (simp add: MORPHEMES_def)
  then have h1: "\<exists>s \<in> set MORPHEMES. b_type s = ''suffix'' \<and> form s = ''si''"
    by (intro bexI[of _ ?si]) (simp_all add: BM_def)
  have np: "\<not> list_ex (peelable ''si'') (filter (\<lambda>m. b_type m = ''suffix'') MORPHEMES)"
    by (simp add: MORPHEMES_def BM_def peelable_def endswith_def)
  then have h2: "\<forall>m \<in> set MORPHEMES. b_type m = ''suffix'' \<longrightarrow> \<not> peelable ''si'' m"
    by (auto simp: list_ex_iff)
  note g3 = suffix_word_guard[of MORPHEMES "''si''", THEN conjunct2, THEN conjunct2, rule_format,
      OF conjI[OF ne2 h1]]
  from g3[THEN conjunct1] h2 have p: "peeled MORPHEMES ''si'' = []" by blast
  note g4 = g3[THEN conjunct2, rule_format, OF p]
  from g4 obtain m where m: "analyze_morphemes MORPHEMES ''si'' = [m]" "form m = ''si''"
    by blast
  then have len: "length (analyze_morphemes MORPHEMES ''si'') = 1"
    and cat: "concat (map form (analyze_morphemes MORPHEMES ''si'')) = ''si''"
    by simp_all
  have mem2: "?tasi \<in> set MORPHEMES" by (simp add: MORPHEMES_def)
  then have h3: "\<exists>s \<in> set MORPHEMES. b_type s = ''suffix'' \<and> form s = ''tasi''"
    by (intro bexI[of _ ?tasi]) (simp_all add: BM_def)
  have pt: "peelable ''tasi'' ?si"
    by (simp add: peelable_def endswith_def BM_def)
  have ts: "b_type ?si = ''suffix''" by (simp add: BM_def)
  note g5 = suffix_word_guard[of MORPHEMES "''tasi''", THEN conjunct2, THEN conjunct2, rule_format,
      OF conjI[OF ne h3], THEN conjunct1]
  from g5 mem ts pt have q: "peeled MORPHEMES ''tasi'' \<noteq> []" by blast
  show ?thesis
    by (intro conjI f g1 ns ne g2 ne2 mem np p g4[THEN conjunct1] len cat mem2 pt q)
qed

text \<open>
  Claim C10. With the seed table, the residual left by a step of the loop is never empty;
  hence for a non-empty word the final residual is not empty, and the result is not empty:
  its first morpheme stands for the residual and is the index entry of that form or the
  \<open>UNKNOWN-ROOT\<close> placeholder, and the stripped suffixes follow it.
\<close>

theorem nonempty_word_has_root_position:
  "(\<forall>r suf. find (peelable r) (suffixes MORPHEMES) = Some suf \<longrightarrow>
      drop_last (length (form suf)) r \<noteq> []) \<and>
   (w \<noteq> [] \<longrightarrow>
     residual MORPHEMES w \<noteq> [] \<and>
     analyze_morphemes MORPHEMES w \<noteq> [] \<and>
     (\<exists>m. analyze_morphemes MORPHEMES w = m # peeled MORPHEMES w \<and>
          form m = residual MORPHEMES w \<and>
          (MORPHEME_INDEX MORPHEMES (residual MORPHEMES w) = Some m \<or>
           m = BM (residual MORPHEMES w) ''UNKNOWN-ROOT'' ''root'' ''not yet in database'')))"
proof (intro conjI allI impI)
  fix r suf
  assume "find (peelable r) (suffixes MORPHEMES) = Some suf"
  then have p: "peelable r suf" and "suf \<in> set (suffixes MORPHEMES)"
    by (auto simp: find_Some_iff)
  with suffixes_nonempty_forms[OF MORPHEMES_suffix_forms] have "form suf \<noteq> []"
    by blast
  with p show "drop_last (length (form suf)) r \<noteq> []"
    using peelable_split by fastforce
next
  assume "w \<noteq> []"
  with MORPHEMES_suffix_forms have r: "residual MORPHEMES w \<noteq> []"
    by (rule residual_nonempty)
  from root_part_nonempty[OF r, of MORPHEMES] obtain m where
    m: "root_part MORPHEMES (residual MORPHEMES w) = [m]" "form m = residual MORPHEMES w"
     "MORPHEME_INDEX MORPHEMES (residual MORPHEMES w) = Some m \<or>
      m = BM (residual MORPHEMES w) ''UNKNOWN-ROOT'' ''root'' ''not yet in database''"
    by blast
  then have a: "analyze_morphemes MORPHEMES w = m # peeled MORPHEMES w"
    by (simp add: analyze_morphemes_parts)
  from r show "residual MORPHEMES w \<noteq> []" .
  from a show "analyze_morphemes MORPHEMES w \<noteq> []" by simp
  from a m show "\<exists>m. analyze_morphemes MORPHEMES w = m # peeled MORPHEMES w \<and>
          form m = residual MORPHEMES w \<and>
          (MORPHEME_INDEX MORPHEMES (residual MORPHEMES w) = Some m \<or>
           m = BM (residual MORPHEMES w) ''UNKNOWN-ROOT'' ''root'' ''not yet in database'')"
    by blast
qed

theorem nonempty_word_has_root_position_witness:
  "find (peelable ''Tekekulqan'') (suffixes MORPHEMES) =
     Some (BM ''qan'' (''device / instrument / 'thing that does it'' @ [CHR 0x27]) ''suffix'' []) \<and>
   drop_last
     (length (form (BM ''qan'' (''device / instrument / 'thing that does it'' @ [CHR 0x27])
        ''suffix'' [])))
     ''Tekekulqan'' \<noteq> [] \<and>
   ''Tekekulqan'' \<noteq> [] \<and>
   residual MORPHEMES ''Tekekulqan'' = ''Tekek'' \<and>
   residual MORPHEMES ''Tekekulqan'' \<noteq> [] \<and>
   analyze_morphemes MORPHEMES ''Tekekulqan'' \<noteq> [] \<and>
   hd (analyze_morphemes MORPHEMES ''Tekekulqan'') =
     BM ''Tekek'' ''UNKNOWN-ROOT'' ''root'' ''not yet in database''"
proof -
  let ?qan = "BM ''qan'' (''device / instrument / 'thing that does it'' @ [CHR 0x27]) ''suffix'' []"
  have f: "find (peelable ''Tekekulqan'') (suffixes MORPHEMES) = Some ?qan"
    by (simp add: suffixes_MORPHEMES peelable_def endswith_def BM_def)
  have ne: "''Tekekulqan'' \<noteq> []" by simp
  have r: "residual MORPHEMES ''Tekekulqan'' = ''Tekek''"
    by (simp add: seg_eval)
  have i: "MORPHEME_INDEX MORPHEMES ''Tekek'' = None"
    by (simp add: MORPHEME_INDEX_def MORPHEMES_def BM_def)
  note t1 = nonempty_word_has_root_position[of "''Tekekulqan''", THEN conjunct1, rule_format, OF f]
  note t2 = nonempty_word_has_root_position[of "''Tekekulqan''", THEN conjunct2, rule_format, OF ne]
  from t2 obtain m where
    m: "analyze_morphemes MORPHEMES ''Tekekulqan'' = m # peeled MORPHEMES ''Tekekulqan''"
       "MORPHEME_INDEX MORPHEMES (residual MORPHEMES ''Tekekulqan'') = Some m \<or>
        m = BM (residual MORPHEMES ''Tekekulqan'') ''UNKNOWN-ROOT'' ''root'' ''not yet in database''"
    by blast
  from m(2) have "m = BM ''Tekek'' ''UNKNOWN-ROOT'' ''root'' ''not yet in database''"
    unfolding r i by simp
  with m(1) have h: "hd (analyze_morphemes MORPHEMES ''Tekekulqan'') =
     BM ''Tekek'' ''UNKNOWN-ROOT'' ''root'' ''not yet in database''"
    by simp
  show ?thesis
    by (intro conjI f t1 ne r t2[THEN conjunct1] t2[THEN conjunct2, THEN conjunct1] h)
qed

section \<open>Properties of the translator\<close>

subsection \<open>The translator on ASCII text\<close>



lemma lookup_unfold:
  "lookup lxn w =
     (let key = strip w in
      case map_of lxn key of
        Some e \<Rightarrow> Some e
      | None \<Rightarrow>
          (case find (\<lambda>(hw, e). lower hw = lower key) lxn of
             Some (hw, e) \<Rightarrow> Some e
           | None \<Rightarrow> None))"
  by (simp add: lookup_def lookup_with_def)


subsection \<open>Lookup\<close>

lemma find_key_map_of:
  assumes "find (\<lambda>(k, v). Q k) xs = Some (k, v)"
  shows "map_of xs k = Some v \<and> Q k"
  using assms
proof (induction xs)
  case Nil
  then show ?case by simp
next
  case (Cons x xs)
  obtain k' v' where x: "x = (k', v')" by (cases x)
  show ?case
  proof (cases "Q k'")
    case True
    with Cons.prems x show ?thesis by simp
  next
    case False
    with Cons.prems x have "find (\<lambda>(k, v). Q k) xs = Some (k, v)" by simp
    then have "map_of xs k = Some v \<and> Q k" by (rule Cons.IH)
    with False x show ?thesis by auto
  qed
qed

lemma lookup_with_Some:
  assumes "lookup_with str_strip str_lower lxn w = Some e"
  shows "\<exists>hw. map_of lxn hw = Some e \<and> str_lower hw = str_lower (str_strip w)"
proof (cases "map_of lxn (str_strip w)")
  case (Some e')
  with assms have "e' = e" by (simp add: lookup_with_def)
  with Some show ?thesis by blast
next
  case None
  with assms obtain hw where
    "find (\<lambda>(hw, e). str_lower hw = str_lower (str_strip w)) lxn = Some (hw, e)"
    by (auto simp: lookup_with_def Let_def split: option.splits prod.splits)
  then have "map_of lxn hw = Some e \<and> str_lower hw = str_lower (str_strip w)"
    by (rule find_key_map_of)
  then show ?thesis by blast
qed

lemma lookup_with_exact:
  "map_of lxn (str_strip w) = Some e \<Longrightarrow> lookup_with str_strip str_lower lxn w = Some e"
  by (simp add: lookup_with_def)

lemma lookup_with_None_iff:
  "lookup_with str_strip str_lower lxn w = None \<longleftrightarrow>
   \<not> (\<exists>hw \<in> set (map fst lxn). str_lower hw = str_lower (str_strip w))"
proof
  assume n: "lookup_with str_strip str_lower lxn w = None"
  then have "find (\<lambda>(hw, e). str_lower hw = str_lower (str_strip w)) lxn = None"
    by (auto simp: lookup_with_def Let_def split: option.splits prod.splits)
  then show "\<not> (\<exists>hw \<in> set (map fst lxn). str_lower hw = str_lower (str_strip w))"
    by (auto simp: find_None_iff)
next
  assume a: "\<not> (\<exists>hw \<in> set (map fst lxn). str_lower hw = str_lower (str_strip w))"
  then have "str_strip w \<notin> fst ` set lxn" by auto
  then have m: "map_of lxn (str_strip w) = None" by (simp add: map_of_eq_None_iff)
  from a have "find (\<lambda>(hw, e). str_lower hw = str_lower (str_strip w)) lxn = None"
    by (force simp: find_None_iff)
  with m show "lookup_with str_strip str_lower lxn w = None" by (simp add: lookup_with_def)
qed


lemma analyze_word_with_hit:
  "lookup_with str_strip str_lower lxn w = Some e \<Longrightarrow>
   entry (analyze_word_with str_strip str_lower lxn w) = Some e \<and>
   guessed_morphemes (analyze_word_with str_strip str_lower lxn w) = []"
  by (simp add: analyze_word_with_def)

lemma analyze_word_with_miss:
  "lookup_with str_strip str_lower lxn w = None \<Longrightarrow>
   entry (analyze_word_with str_strip str_lower lxn w) = None \<and>
   guessed_morphemes (analyze_word_with str_strip str_lower lxn w) \<noteq> []"
  by (simp add: analyze_word_with_def Let_def split_beta)

lemma LEXICON_CORE_keys:
  "map fst LEXICON_CORE =
     [''kesalul'', ''kesa'lul'', ''ke'sa'lul'', ''tekek'', ''nme'jik'', ''msit no'kmaq'']"
  by (simp add: LEXICON_CORE_def)

lemma lower_simps:
  "lower [] = []" "lower (c # cs) = lower_char c # lower cs"
  by (simp_all add: lower_def)

text \<open>
  Claim C1. Whatever \<open>str.strip\<close> and \<open>str.lower\<close> compute: if some key of the lexicon
  equals the stripped query after both are put in lower case, \<open>analyze_word\<close> returns an
  entry stored in the lexicon under such a key and no guessed morphemes; when the stripped
  query itself is a key, the entry is the one stored under it. If no key matches, there
  is no entry and the list of guessed morphemes is not empty.
\<close>

theorem analyze_word_entry_or_guess:
  "((\<exists>hw \<in> set (map fst lxn). str_lower hw = str_lower (str_strip w)) \<longrightarrow>
      (\<exists>hw e. map_of lxn hw = Some e \<and> str_lower hw = str_lower (str_strip w) \<and>
              entry (analyze_word_with str_strip str_lower lxn w) = Some e) \<and>
      guessed_morphemes (analyze_word_with str_strip str_lower lxn w) = []) \<and>
   (\<forall>e. map_of lxn (str_strip w) = Some e \<longrightarrow>
      entry (analyze_word_with str_strip str_lower lxn w) = Some e) \<and>
   (\<not> (\<exists>hw \<in> set (map fst lxn). str_lower hw = str_lower (str_strip w)) \<longrightarrow>
      entry (analyze_word_with str_strip str_lower lxn w) = None \<and>
      guessed_morphemes (analyze_word_with str_strip str_lower lxn w) \<noteq> [])"
proof (intro conjI allI impI)
  assume "\<exists>hw \<in> set (map fst lxn). str_lower hw = str_lower (str_strip w)"
  then obtain e where e: "lookup_with str_strip str_lower lxn w = Some e"
    using lookup_with_None_iff[of str_strip str_lower lxn w]
    by (cases "lookup_with str_strip str_lower lxn w") auto
  from lookup_with_Some[OF e] analyze_word_with_hit[OF e]
  show "\<exists>hw e. map_of lxn hw = Some e \<and> str_lower hw = str_lower (str_strip w) \<and>
              entry (analyze_word_with str_strip str_lower lxn w) = Some e"
    by blast
  from analyze_word_with_hit[OF e]
  show "guessed_morphemes (analyze_word_with str_strip str_lower lxn w) = []" by simp
next
  fix e assume "map_of lxn (str_strip w) = Some e"
  then have "lookup_with str_strip str_lower lxn w = Some e" by (rule lookup_with_exact)
  then show "entry (analyze_word_with str_strip str_lower lxn w) = Some e"
    by (simp add: analyze_word_with_hit)
next
  assume "\<not> (\<exists>hw \<in> set (map fst lxn). str_lower hw = str_lower (str_strip w))"
  then have n: "lookup_with str_strip str_lower lxn w = None"
    by (simp add: lookup_with_None_iff)
  from analyze_word_with_miss[OF n]
  show "entry (analyze_word_with str_strip str_lower lxn w) = None" by simp
  from analyze_word_with_miss[OF n]
  show "guessed_morphemes (analyze_word_with str_strip str_lower lxn w) \<noteq> []" by simp
qed

theorem analyze_word_entry_or_guess_witness:
  "''kesalul'' \<in> set (map fst LEXICON_CORE) \<and>
   lower ''kesalul'' = lower (strip ''  Kesalul '') \<and>
   entry (analyze_word_with strip lower LEXICON_CORE ''  Kesalul '') \<noteq> None \<and>
   guessed_morphemes (analyze_word_with strip lower LEXICON_CORE ''  Kesalul '') = [] \<and>
   \<not> list_ex (\<lambda>hw. lower hw = lower (strip ''wapus'')) (map fst LEXICON_CORE) \<and>
   entry (analyze_word_with strip lower LEXICON_CORE ''wapus'') = None \<and>
   guessed_morphemes (analyze_word_with strip lower LEXICON_CORE ''wapus'') \<noteq> [] \<and>
   map_of LEXICON_CORE (strip ''tekek'') \<noteq> None \<and>
   entry (analyze_word_with strip lower LEXICON_CORE ''tekek'') =
     map_of LEXICON_CORE (strip ''tekek'')"
proof -
  have s3: "strip ''tekek'' = ''tekek''"
    by (simp add: strip_def isspace_def)
  have "''tekek'' \<in> set (map fst LEXICON_CORE)"
    unfolding LEXICON_CORE_keys by simp
  then have x: "map_of LEXICON_CORE (strip ''tekek'') \<noteq> None"
    unfolding s3 by (simp add: map_of_eq_None_iff)
  then obtain e3 where e3: "map_of LEXICON_CORE (strip ''tekek'') = Some e3"
    by (cases "map_of LEXICON_CORE (strip ''tekek'')") simp_all
  note t3 = analyze_word_entry_or_guess[of LEXICON_CORE lower strip "''tekek''",
      THEN conjunct2, THEN conjunct1, rule_format, OF e3]
  from t3 e3 have y: "entry (analyze_word_with strip lower LEXICON_CORE ''tekek'') =
      map_of LEXICON_CORE (strip ''tekek'')"
    by simp
  have s: "strip ''  Kesalul '' = ''Kesalul''"
    by (simp add: strip_def isspace_def)
  have l: "lower ''kesalul'' = lower (strip ''  Kesalul '')"
    unfolding s by (simp add: lower_simps lower_char_def)
  have k: "''kesalul'' \<in> set (map fst LEXICON_CORE)"
    unfolding LEXICON_CORE_keys by simp
  from l k have h: "\<exists>hw \<in> set (map fst LEXICON_CORE). lower hw = lower (strip ''  Kesalul '')"
    by (rule bexI[of "\<lambda>hw. lower hw = lower (strip ''  Kesalul '')" "''kesalul''"])
  have s2: "strip ''wapus'' = ''wapus''"
    by (simp add: strip_def isspace_def)
  have n: "\<not> list_ex (\<lambda>hw. lower hw = lower (strip ''wapus'')) (map fst LEXICON_CORE)"
    unfolding s2 LEXICON_CORE_keys by (simp add: lower_simps lower_char_def)
  then have n': "\<not> (\<exists>hw \<in> set (map fst LEXICON_CORE). lower hw = lower (strip ''wapus''))"
    unfolding list_ex_iff .
  note t1 = analyze_word_entry_or_guess[of LEXICON_CORE lower strip "''  Kesalul ''",
      THEN conjunct1, rule_format, OF h]
  note t2 = analyze_word_entry_or_guess[of LEXICON_CORE lower strip "''wapus''",
      THEN conjunct2, THEN conjunct2, rule_format, OF n']
  from t1 obtain e0 where
    "entry (analyze_word_with strip lower LEXICON_CORE ''  Kesalul '') = Some e0"
    by blast
  then have e: "entry (analyze_word_with strip lower LEXICON_CORE ''  Kesalul '') \<noteq> None"
    by simp
  note g = t1[THEN conjunct2]
  show ?thesis
    by (intro conjI k l e g n t2[THEN conjunct1] t2[THEN conjunct2] x y)
qed

subsection \<open>Blank queries\<close>













lemma lower_eq_Nil: "lower hw = [] \<longleftrightarrow> hw = []"
  by (simp add: lower_def)







subsection \<open>Notes of an unknown word\<close>











subsection \<open>Generation\<close>

lemma generic_caution: "caution generic_candidate \<noteq> []"
  by (simp add: generic_candidate_def)

lemma refrigerator_caution: "caution refrigerator_candidate \<noteq> []"
  by (simp add: refrigerator_candidate_def)

lemma generic_word: "cand_word generic_candidate = ''Apoqnmatultimik''"
  by (simp add: generic_candidate_def base_root_def capitalize_def upper_char_def lower_simps
      lower_char_def)

lemma empty_request_no_pattern:
  "\<not> refrigerator_pattern \<lparr>concept = [], purpose = [], domain_tags = tags\<rparr>"
  by (simp add: refrigerator_pattern_def lower_simps)

text \<open>
  Claim C8. For every request the list of candidates is not empty, its last element is the
  generic fallback candidate, and every candidate has a non-empty caution. When the one
  specific pattern does not match, the generic candidate is the only one; this is so for
  the request with empty concept and empty purpose.
\<close>

theorem generate_never_empty:
  "generate_modern_term req \<noteq> [] \<and>
   last (generate_modern_term req) = generic_candidate \<and>
   (\<forall>c \<in> set (generate_modern_term req). caution c \<noteq> []) \<and>
   (\<not> refrigerator_pattern req \<longrightarrow> generate_modern_term req = [generic_candidate]) \<and>
   generate_modern_term \<lparr>concept = [], purpose = [], domain_tags = tags\<rparr> = [generic_candidate]"
proof (intro conjI ballI impI)
  show "generate_modern_term req \<noteq> []"
    by (simp add: generate_modern_term_def)
  show "last (generate_modern_term req) = generic_candidate"
    by (simp add: generate_modern_term_def)
  show "generate_modern_term \<lparr>concept = [], purpose = [], domain_tags = tags\<rparr> =
      [generic_candidate]"
    by (simp add: generate_modern_term_def empty_request_no_pattern)
next
  fix c assume "c \<in> set (generate_modern_term req)"
  then have "c = refrigerator_candidate \<or> c = generic_candidate"
    by (auto simp: generate_modern_term_def split: if_splits)
  then show "caution c \<noteq> []"
    using generic_caution refrigerator_caution by blast
next
  assume "\<not> refrigerator_pattern req"
  then show "generate_modern_term req = [generic_candidate]"
    by (simp add: generate_modern_term_def)
qed

theorem generate_never_empty_witness:
  "\<not> refrigerator_pattern \<lparr>concept = ''Lamp'', purpose = ''gives light'', domain_tags = []\<rparr> \<and>
   generate_modern_term \<lparr>concept = ''Lamp'', purpose = ''gives light'', domain_tags = []\<rparr> =
     [generic_candidate] \<and>
   generic_candidate \<in>
     set (generate_modern_term \<lparr>concept = ''Lamp'', purpose = ''gives light'', domain_tags = []\<rparr>) \<and>
   caution generic_candidate \<noteq> []"
proof -
  let ?req = "\<lparr>concept = ''Lamp'', purpose = ''gives light'', domain_tags = []\<rparr>"
  have n: "\<not> refrigerator_pattern ?req"
    by (simp add: refrigerator_pattern_def lower_simps lower_char_def)
  note t = generate_never_empty[of ?req]
  note g = t[THEN conjunct2, THEN conjunct2, THEN conjunct2, THEN conjunct1, rule_format, OF n]
  have m: "generic_candidate \<in> set (generate_modern_term ?req)"
    unfolding g by simp
  note c = t[THEN conjunct2, THEN conjunct2, THEN conjunct1, rule_format, OF m]
  show ?thesis
    by (intro conjI n g m c)
qed

subsection \<open>Sentences\<close>

lemma tokenize_example:
  "tokenize ''Kwe', teluisi Katew.'' = [''Kwe'' @ [CHR 0x27], ''teluisi'', ''Katew.'']"
  by (simp add: tokenize_def replace_comma_def ws_at_def WHITESPACE_def)

text \<open>A no-break space (U+00A0) and an em space (U+2003) separate tokens as a space does.\<close>

lemma tokenize_unicode_space:
  "tokenize [CHR ''a'', CHR 0xC2, CHR 0xA0, CHR ''b'', CHR 0xE2, CHR 0x80, CHR 0x83, CHR ''c''] =
     [''a'', ''b'', ''c'']"
  by (simp add: tokenize_def replace_comma_def ws_at_def WHITESPACE_def)

lemma replace_comma_simps:
  "replace_comma [] = []"
  "replace_comma (c # cs) = (if c = CHR '','' then CHR '' '' else c) # replace_comma cs"
  by (simp_all add: replace_comma_def)

lemma replace_comma_drop: "drop n (replace_comma s) = replace_comma (drop n s)"
  by (simp add: replace_comma_def drop_map)

lemma startswith_replace_comma:
  "CHR '','' \<notin> set w \<Longrightarrow> CHR '' '' \<notin> set w \<Longrightarrow>
   startswith (replace_comma s) w = startswith s w"
  by (induction s w rule: startswith.induct) (auto simp: replace_comma_simps)

lemma WHITESPACE_bytes:
  "\<forall>w \<in> set WHITESPACE. w = '' '' \<or> (CHR '','' \<notin> set w \<and> CHR '' '' \<notin> set w)"
  by (simp add: WHITESPACE_def)

lemma ws_at_replace_comma:
  assumes "c \<noteq> CHR '',''"
  shows "ws_at (replace_comma (c # cs)) = ws_at (c # cs)"
  unfolding ws_at_def
proof (rule find_cong[OF refl])
  fix w assume "w \<in> set WHITESPACE"
  with WHITESPACE_bytes have "w = '' '' \<or> (CHR '','' \<notin> set w \<and> CHR '' '' \<notin> set w)"
    by blast
  then show "startswith (replace_comma (c # cs)) w = startswith (c # cs) w"
  proof
    assume "w = '' ''"
    with assms show ?thesis by (simp add: replace_comma_simps)
  next
    assume "CHR '','' \<notin> set w \<and> CHR '' '' \<notin> set w"
    then show ?thesis by (simp add: startswith_replace_comma)
  qed
qed

lemma ws_at_replaced_comma: "ws_at (CHR '' '' # s) = Some '' ''"
  by (simp add: ws_at_def WHITESPACE_def)

lemma split_ws_replace_comma:
  "split_ws cur (replace_comma s) = filter (\<lambda>t. t \<noteq> []) (split_at_separators cur s)"
proof (induction cur s rule: split_at_separators.induct)
  case (1 cur)
  then show ?case by (simp add: replace_comma_simps)
next
  case (2 cur c cs)
  show ?case
  proof (cases "c = CHR '',''")
    case True
    then have sep: "separator_at (c # cs) = Some '',''"
      by (simp add: separator_at_def)
    from "2.IH"(2)[OF sep] have "split_ws [] (replace_comma cs) =
        filter (\<lambda>t. t \<noteq> []) (split_at_separators [] cs)"
      by simp
    with True sep show ?thesis
      by (simp add: replace_comma_simps ws_at_replaced_comma)
  next
    case False
    then have sep: "separator_at (c # cs) = ws_at (c # cs)"
      by (simp add: separator_at_def)
    from False have rc: "replace_comma (c # cs) = c # replace_comma cs"
      by (simp add: replace_comma_simps)
    have w: "ws_at (c # replace_comma cs) = ws_at (c # cs)"
      using ws_at_replace_comma[OF False, of cs] rc by simp
    show ?thesis
    proof (cases "ws_at (c # cs)")
      case None
      with sep have "separator_at (c # cs) = None" by simp
      from "2.IH"(1)[OF this] None sep w show ?thesis
        by (simp add: rc)
    next
      case (Some ws)
      with sep have s: "separator_at (c # cs) = Some ws" by simp
      have d: "drop (length ws) (c # replace_comma cs) = replace_comma (drop (length ws) (c # cs))"
        using replace_comma_drop[of "length ws" "c # cs"] rc by simp
      from "2.IH"(2)[OF s] Some s w show ?thesis
        by (simp add: rc d del: drop.simps drop_Cons')
    qed
  qed
qed

lemma tokenize_spec: "tokenize s = spec_tokenize s"
  by (simp add: tokenize_def spec_tokenize_def split_ws_replace_comma)

text \<open>
  Claim C9. The tokens of a sentence are those the specification describes (the pieces
  between white-space characters and commas, empty pieces dropped); the analyses are the
  analyses of the tokens by \<open>analyze_word\<close>, one per token and in the order of the tokens,
  whatever \<open>str.strip\<close> and \<open>str.lower\<close> compute and whatever the lexicon. The sentence
  \<open>Kwe', teluisi Katew.\<close> has the three tokens \<open>Kwe'\<close>, \<open>teluisi\<close> and \<open>Katew.\<close> and the
  three analyses of these words, in this order.
\<close>

theorem analyze_sentence_tokens:
  "sentence (analyze_sentence_with str_strip str_lower lxn s) = s \<and>
   tokens (analyze_sentence_with str_strip str_lower lxn s) = spec_tokenize s \<and>
   analyses (analyze_sentence_with str_strip str_lower lxn s) =
     map (\<lambda>tok. to_dict (analyze_word_with str_strip str_lower lxn tok))
       (tokens (analyze_sentence_with str_strip str_lower lxn s)) \<and>
   map d_word (analyses (analyze_sentence_with str_strip str_lower lxn s)) =
     tokens (analyze_sentence_with str_strip str_lower lxn s) \<and>
   length (analyses (analyze_sentence_with str_strip str_lower lxn s)) =
     length (tokens (analyze_sentence_with str_strip str_lower lxn s)) \<and>
   tokens (analyze_sentence_with str_strip str_lower lxn ''Kwe', teluisi Katew.'') =
     [''Kwe'' @ [CHR 0x27], ''teluisi'', ''Katew.''] \<and>
   analyses (analyze_sentence_with str_strip str_lower lxn ''Kwe', teluisi Katew.'') =
     [to_dict (analyze_word_with str_strip str_lower lxn (''Kwe'' @ [CHR 0x27])),
      to_dict (analyze_word_with str_strip str_lower lxn ''teluisi''),
      to_dict (analyze_word_with str_strip str_lower lxn ''Katew.'')]"
proof -
  let ?A = "analyze_sentence_with str_strip str_lower lxn"
  have w: "d_word (to_dict (analyze_word_with str_strip str_lower lxn tok)) = tok" for tok
    by (simp add: to_dict_def analyze_word_with_def Let_def split_beta split: option.splits)
  have 1: "sentence (?A s) = s"
    by (simp add: analyze_sentence_with_def Let_def)
  have 2: "tokens (?A s) = spec_tokenize s"
    by (simp add: analyze_sentence_with_def Let_def tokenize_spec)
  have 3: "analyses (?A s) =
     map (\<lambda>tok. to_dict (analyze_word_with str_strip str_lower lxn tok)) (tokens (?A s))"
    by (simp add: analyze_sentence_with_def Let_def)
  have 4: "map d_word (analyses (?A s)) = tokens (?A s)"
    unfolding 3 by (simp add: w comp_def)
  have 5: "length (analyses (?A s)) = length (tokens (?A s))"
    unfolding 3 by simp
  have 6: "tokens (?A ''Kwe', teluisi Katew.'') =
     [''Kwe'' @ [CHR 0x27], ''teluisi'', ''Katew.'']"
    by (simp add: analyze_sentence_with_def Let_def tokenize_example)
  have 7: "analyses (?A ''Kwe', teluisi Katew.'') =
     [to_dict (analyze_word_with str_strip str_lower lxn (''Kwe'' @ [CHR 0x27])),
      to_dict (analyze_word_with str_strip str_lower lxn ''teluisi''),
      to_dict (analyze_word_with str_strip str_lower lxn ''Katew.'')]"
    by (simp add: analyze_sentence_with_def Let_def tokenize_example)
  show ?thesis
    by (intro conjI 1 2 3 4 5 6 7)
qed

end
